theory Spec2Isabelle
  imports Complex_Main "HOL-Library.Sublist" "HOL-Library.AList"
begin

section \<open>The Unreal window manager (unreal_window_manager.py)\<close>

text \<open>
  A shallow embedding of the class \<^verbatim>\<open>UnrealWindowManager\<close> and of the
  \<^verbatim>\<open>/reorder\<close> request handler. The object is a record that every method takes and
  returns; the windowing system and the clock are an explicit \<open>world\<close> that the methods
  read from and write to. Python dictionaries are association lists kept with
  \<open>AList.update\<close> (assignment to a key replaces in place or appends, as \<^verbatim>\<open>d[k] = v\<close>
  does), so that \<^verbatim>\<open>len\<close> is \<open>length\<close>; lookups go through \<open>map_of\<close>.
\<close>

subsection \<open>Data\<close>

type_synonym hwnd = int
type_synonym rect = "int \<times> int \<times> int \<times> int"

text \<open>A top-level window as \<^verbatim>\<open>EnumWindows\<close> hands it to the callback: its handle, what
  \<^verbatim>\<open>IsWindowVisible\<close> answers and what \<^verbatim>\<open>GetWindowText\<close> answers.\<close>

record window =
  handle :: hwnd
  visible :: bool
  title :: string

text \<open>What the windowing system does to one run of the \<^verbatim>\<open>try\<close> body of
  \<^verbatim>\<open>position_window\<close>: one of its calls raises (the \<^verbatim>\<open>except Exception\<close> clause
  takes over), or the body reaches the final \<^verbatim>\<open>GetWindowRect\<close>, which reports the
  origin \<open>(actual_x, actual_y)\<close>. The style changes, the clip region (whose own failure
  the inner \<^verbatim>\<open>try\<close> swallows) and the settle delays inside the body do not influence
  the control flow and are summarised by this outcome.\<close>

datatype attempt = Raised | ReadBack int int

datatype event = Placement hwnd int int int int | Sleep real

text \<open>The world: the successive readings of \<^verbatim>\<open>time.time()\<close>, the successive
  enumerations of the desktop and the successive attempt outcomes, each with the number
  consumed so far, and the trace of the calls of \<^verbatim>\<open>position_window\<close> (\<open>Placement\<close>)
  and of the delays between attempts, windows and polls (\<open>Sleep\<close>) issued so far.
  Python floats are read as reals.\<close>

record world =
  clock :: "nat \<Rightarrow> real"
  desktop :: "nat \<Rightarrow> window list"
  answers :: "nat \<Rightarrow> attempt"
  clock_reads :: nat
  scans :: nat
  attempts_made :: nat
  trace :: "event list"

datatype py_error = IndexError

record manager =
  found_windows :: "(string \<times> hwnd) list"
  window_handles :: "(int \<times> hwnd) list"
  current_order :: "int list"
  borderless :: bool
  hide_titlebar :: bool

record response =
  success :: bool
  message :: string
  order :: "int list option"


datatype request_body = NoOrder | Order "int list"

subsection \<open>Constants set once by the constructor\<close>

definition titlebar_height :: int where
  "titlebar_height = 32"

definition positions :: "rect list" where
  "positions = [(0, 0, 480, 800), (480, 0, 480, 800), (960, 0, 480, 800), (1440, 0, 480, 800)]"

definition window_keys :: "string list" where
  "window_keys = [''Server'', ''Client 1'', ''Client 2'', ''Client 3'']"

definition init :: "bool \<Rightarrow> bool \<Rightarrow> manager" where
  "init b h = \<lparr>found_windows = [], window_handles = [], current_order = [4, 2, 3, 1],
     borderless = b, hide_titlebar = h\<rparr>"

subsection \<open>Python helpers\<close>

text \<open>List subscripting \<^verbatim>\<open>xs[i]\<close>: from the front for \<open>0 \<le> i\<close>, from the back for a
  negative \<open>i\<close>, and \<^verbatim>\<open>IndexError\<close> beyond either end.\<close>

definition py_index :: "'a list \<Rightarrow> int \<Rightarrow> py_error + 'a" where
  "py_index xs i =
     (if 0 \<le> i \<and> i < int (length xs) then Inr (xs ! nat i)
      else if i < 0 \<and> - int (length xs) \<le> i then Inr (xs ! nat (int (length xs) + i))
      else Inl IndexError)"


definition digit_char :: "nat \<Rightarrow> char" where
  "digit_char d = ''0123456789'' ! d"

function str_nat :: "nat \<Rightarrow> string" where
  "str_nat n = (if n < 10 then [digit_char n] else str_nat (n div 10) @ [digit_char (n mod 10)])"
  by pat_completeness auto
termination
  by (relation "measure (\<lambda>n. n)") auto

definition str_int :: "int \<Rightarrow> string" where
  "str_int i = (if i < 0 then CHR ''-'' # str_nat (nat (- i)) else str_nat (nat i))"

fun join_comma :: "string list \<Rightarrow> string" where
  "join_comma [] = []"
| "join_comma [x] = x"
| "join_comma (x # y # ys) = x @ '', '' @ join_comma (y # ys)"

definition repr_list :: "int list \<Rightarrow> string" where
  "repr_list xs = ''['' @ join_comma (map str_int xs) @ '']''"

subsection \<open>find_unreal_windows\<close>

text \<open>\<^verbatim>\<open>a in b\<close> on strings is \<open>sublist a b\<close>. The callback, with its \<^verbatim>\<open>if\<close>/\<^verbatim>\<open>elif\<close>
  chain in the order of the source.\<close>

definition enum_callback :: "window \<Rightarrow> (string \<times> hwnd) list \<Rightarrow> (string \<times> hwnd) list" where
  "enum_callback win results =
     (if visible win then
        (if sublist ''Preview'' (title win) \<and> sublist ''NetMode:'' (title win) then
           (if sublist ''Server'' (title win) then AList.update ''Server'' (handle win) results
            else if sublist ''Client 1'' (title win) then AList.update ''Client 1'' (handle win) results
            else if sublist ''Client 2'' (title win) then AList.update ''Client 2'' (handle win) results
            else if sublist ''Client 3'' (title win) then AList.update ''Client 3'' (handle win) results
            else results)
         else results)
      else results)"

fun enum_windows :: "window list \<Rightarrow> (string \<times> hwnd) list \<Rightarrow> (string \<times> hwnd) list" where
  "enum_windows [] results = results"
| "enum_windows (win # wins) results = enum_windows wins (enum_callback win results)"

definition find_unreal_windows :: "world \<Rightarrow> (string \<times> hwnd) list \<times> world" where
  "find_unreal_windows w =
     (enum_windows (desktop w (scans w)) [], w\<lparr>scans := Suc (scans w)\<rparr>)"

text \<open>The role a title is classified as: the key the callback writes for it, if any.\<close>

definition classify :: "string \<Rightarrow> string option" where
  "classify t =
     (if sublist ''Preview'' t \<and> sublist ''NetMode:'' t then
        (if sublist ''Server'' t then Some ''Server''
         else if sublist ''Client 1'' t then Some ''Client 1''
         else if sublist ''Client 2'' t then Some ''Client 2''
         else if sublist ''Client 3'' t then Some ''Client 3''
         else None)
      else None)"

subsection \<open>position_window\<close>

definition sleep :: "real \<Rightarrow> world \<Rightarrow> world" where
  "sleep d w = w\<lparr>trace := trace w @ [Sleep d]\<rparr>"


definition next_attempt :: "world \<Rightarrow> attempt \<times> world" where
  "next_attempt w = (answers w (attempts_made w), w\<lparr>attempts_made := Suc (attempts_made w)\<rparr>)"

text \<open>The loop \<^verbatim>\<open>for attempt in range(retries)\<close>, from the iteration \<open>attempt\<close> on. A
  read-back within 10 pixels on both axes returns \<open>True\<close>; a read-back outside, or an
  exception, sleeps 0.2 s and goes on when it is not the last attempt; an exception in the
  last attempt returns \<open>False\<close>, as does running out of attempts.\<close>

function attempt_loop :: "int \<Rightarrow> int \<Rightarrow> int \<Rightarrow> int \<Rightarrow> world \<Rightarrow> bool \<times> world" where
  "attempt_loop attempt retries x y w =
     (if attempt < retries then
        (case fst (next_attempt w) of
           ReadBack actual_x actual_y \<Rightarrow>
             if \<bar>actual_x - x\<bar> \<le> 10 \<and> \<bar>actual_y - y\<bar> \<le> 10 then (True, snd (next_attempt w))
             else if attempt < retries - 1
               then attempt_loop (attempt + 1) retries x y (sleep 0.2 (snd (next_attempt w)))
               else attempt_loop (attempt + 1) retries x y (snd (next_attempt w))
         | Raised \<Rightarrow>
             if attempt < retries - 1
               then attempt_loop (attempt + 1) retries x y (sleep 0.2 (snd (next_attempt w)))
               else (False, snd (next_attempt w)))
      else (False, w))"
  by pat_completeness auto
termination
  by (relation "measure (\<lambda>(attempt, retries, x, y, w). nat (retries - attempt))") auto

text \<open>\<^verbatim>\<open>position_window\<close> itself: the call is recorded in the trace with its handle and
  rectangle, then the attempts run. The flags \<^verbatim>\<open>borderless\<close> and \<^verbatim>\<open>hide_titlebar\<close>
  only select which style calls an attempt makes, so the manager is not an argument.\<close>

definition position_window ::
  "hwnd \<Rightarrow> int \<Rightarrow> int \<Rightarrow> int \<Rightarrow> int \<Rightarrow> int \<Rightarrow> world \<Rightarrow> bool \<times> world" where
  "position_window hwnd x y width height retries w =
     attempt_loop 0 retries x y (w\<lparr>trace := trace w @ [Placement hwnd x y width height]\<rparr>)"

subsection \<open>The placement pass\<close>

text \<open>The body shared by the \<^verbatim>\<open>for pos_idx, window_idx in enumerate(...)\<close> loops of
  \<^verbatim>\<open>position_all_windows\<close> and \<^verbatim>\<open>reorder_windows\<close>: a slot whose window has no
  handle is skipped; otherwise the slot rectangle and the window key are looked up (either
  lookup can raise), the window is positioned with the default three retries, and the loop
  sleeps 0.15 s.\<close>

fun place_slots ::
  "(int \<times> hwnd) list \<Rightarrow> (nat \<times> int) list \<Rightarrow> nat \<Rightarrow> world \<Rightarrow> (py_error + nat) \<times> world" where
  "place_slots handles [] success_count w = (Inr success_count, w)"
| "place_slots handles ((pos_idx, window_idx) # rest) success_count w =
     (case map_of handles window_idx of
        None \<Rightarrow> place_slots handles rest success_count w
      | Some hwnd \<Rightarrow>
          (case py_index positions (int pos_idx) of
             Inl e \<Rightarrow> (Inl e, w)
           | Inr (x, y, width, height) \<Rightarrow>
               (case py_index window_keys (window_idx - 1) of
                  Inl e \<Rightarrow> (Inl e, w)
                | Inr window_key \<Rightarrow>
                    place_slots handles rest
                      (if fst (position_window hwnd x y width height 3 w)
                       then success_count + 1 else success_count)
                      (sleep 0.15 (snd (position_window hwnd x y width height 3 w))))))"

subsection \<open>position_all_windows\<close>



subsection \<open>wait_and_position and manual_position\<close>





subsection \<open>reorder_windows, get_status and the /reorder handler\<close>

definition reorder_windows ::
  "manager \<Rightarrow> int list \<Rightarrow> world \<Rightarrow> (py_error + response) \<times> manager \<times> world" where
  "reorder_windows s new_order w =
     (if length new_order \<noteq> 4 then
        (Inr \<lparr>success = False, message = ''Order must contain exactly 4 values'', order = None\<rparr>, s, w)
      else if \<not> list_all (\<lambda>x. 1 \<le> x \<and> x \<le> 4) new_order then
        (Inr \<lparr>success = False, message = ''All values must be between 1 and 4'', order = None\<rparr>, s, w)
      else if card (set new_order) \<noteq> 4 then
        (Inr \<lparr>success = False, message = ''All values must be unique'', order = None\<rparr>, s, w)
      else if window_handles s = [] then
        (Inr \<lparr>success = False, message = ''No windows found. Start the game first.'', order = None\<rparr>, s, w)
      else
        (let s1 = s\<lparr>current_order := new_order\<rparr>;
             r = place_slots (window_handles s1) (enumerate 0 new_order) 0 w
         in case fst r of
              Inl e \<Rightarrow> (Inl e, s1, snd r)
            | Inr success_count \<Rightarrow>
                if success_count = 4 then
                  (Inr \<lparr>success = True,
                        message = ''Successfully reordered to '' @ repr_list new_order,
                        order = Some new_order\<rparr>, s1, snd r)
                else
                  (Inr \<lparr>success = False,
                        message = ''Only positioned '' @ str_nat success_count @ ''/4 windows'',
                        order = Some new_order\<rparr>, s1, snd r)))"



subsection \<open>Vocabulary of the properties\<close>

text \<open>An attempt is within tolerance when it read back an origin at most 10 away from the
  requested one on each axis.\<close>

definition within_tolerance :: "int \<Rightarrow> int \<Rightarrow> attempt \<Rightarrow> bool" where
  "within_tolerance x y a =
     (case a of ReadBack actual_x actual_y \<Rightarrow> \<bar>actual_x - x\<bar> \<le> 10 \<and> \<bar>actual_y - y\<bar> \<le> 10
      | Raised \<Rightarrow> False)"

text \<open>The calls of \<^verbatim>\<open>position_window\<close> in a trace, and the calls a pass over the given
  slots is expected to issue: one per slot whose window has a handle, with the rectangle of
  that slot.\<close>

definition placements :: "event list \<Rightarrow> event list" where
  "placements evs = filter (\<lambda>e. case e of Placement h x y a b \<Rightarrow> True | Sleep d \<Rightarrow> False) evs"

fun slot_targets :: "(int \<times> hwnd) list \<Rightarrow> (nat \<times> int) list \<Rightarrow> event list" where
  "slot_targets handles [] = []"
| "slot_targets handles ((pos_idx, window_idx) # rest) =
     (case map_of handles window_idx of
        None \<Rightarrow> slot_targets handles rest
      | Some hwnd \<Rightarrow>
          (case positions ! pos_idx of
             (x, y, width, height) \<Rightarrow> Placement hwnd x y width height # slot_targets handles rest))"

definition same_oracles :: "world \<Rightarrow> world \<Rightarrow> bool" where
  "same_oracles w w' \<longleftrightarrow>
     clock w' = clock w \<and> desktop w' = desktop w \<and> answers w' = answers w \<and>
     clock_reads w' = clock_reads w \<and> scans w' = scans w"

definition slots_ok :: "(nat \<times> int) list \<Rightarrow> bool" where
  "slots_ok slots \<longleftrightarrow> (\<forall>(i, k) \<in> set slots. i < 4 \<and> 1 \<le> k \<and> k \<le> 4)"

definition is_permutation :: "int list \<Rightarrow> bool" where
  "is_permutation p \<longleftrightarrow> length p = 4 \<and> (\<forall>x \<in> set p. 1 \<le> x \<and> x \<le> 4) \<and> distinct p"



text \<open>Two worlds have the same future when the windowing system answers the attempts still
  to come in the one as in the other.\<close>

definition same_future :: "world \<Rightarrow> world \<Rightarrow> bool" where
  "same_future w v \<longleftrightarrow> (\<forall>k. answers v (attempts_made v + k) = answers w (attempts_made w + k))"

subsection \<open>Example inputs\<close>

definition preview_window :: "hwnd \<Rightarrow> string \<Rightarrow> window" where
  "preview_window h role =
     \<lparr>handle = h, visible = True, title = ''MyGame Preview [NetMode: '' @ role @ '']''\<rparr>"

definition four_windows :: "window list" where
  "four_windows = [preview_window 101 ''Server'', preview_window 102 ''Client 1'',
                   preview_window 103 ''Client 2'', preview_window 104 ''Client 3'']"

text \<open>A world whose clock advances 50 s between readings, whose desktop always shows the
  given windows and whose attempts end as \<open>ans\<close> says.\<close>

definition example_world :: "window list \<Rightarrow> (nat \<Rightarrow> attempt) \<Rightarrow> world" where
  "example_world wins ans =
     \<lparr>clock = (\<lambda>n. 50 * real n), desktop = (\<lambda>n. wins), answers = ans,
      clock_reads = 0, scans = 0, attempts_made = 0, trace = []\<rparr>"

text \<open>Every attempt lands on the slot that a pass of four first-time successes asks for;
  and the same for the first \<open>m\<close> attempts only, every later call raising (a closed
  window).\<close>

definition obedient :: "nat \<Rightarrow> attempt" where
  "obedient n = ReadBack (480 * int (n mod 4)) 0"

definition stale_after :: "nat \<Rightarrow> nat \<Rightarrow> attempt" where
  "stale_after m n = (if n < m then ReadBack (480 * int n) 0 else Raised)"

definition detected :: "(int \<times> hwnd) list \<Rightarrow> manager" where
  "detected handles = (init True True)\<lparr>window_handles := handles\<rparr>"

text \<open>A first attempt that lands on the wrong slot, a second one that raises, a third one
  that lands 8 and 3 pixels off the slot at \<open>x = 480\<close>.\<close>

definition jittery :: "nat \<Rightarrow> attempt" where
  "jittery n = (if n = 0 then ReadBack 0 0 else if n = 1 then Raised else ReadBack 488 (- 3))"

section \<open>Auxiliary facts\<close>

declare attempt_loop.simps [simp del]

lemma attempt_loop_done:
  "\<not> a < r \<Longrightarrow> attempt_loop a r x y w = (False, w)"
  by (simp add: attempt_loop.simps)

lemma attempt_loop_hit:
  "a < r \<Longrightarrow> within_tolerance x y (answers w (attempts_made w)) \<Longrightarrow>
   attempt_loop a r x y w = (True, w\<lparr>attempts_made := Suc (attempts_made w)\<rparr>)"
  by (subst attempt_loop.simps, cases "answers w (attempts_made w)")
     (auto simp: within_tolerance_def next_attempt_def)

lemma attempt_loop_retry:
  "a < r - 1 \<Longrightarrow> \<not> within_tolerance x y (answers w (attempts_made w)) \<Longrightarrow>
   attempt_loop a r x y w =
     attempt_loop (a + 1) r x y (sleep 0.2 (w\<lparr>attempts_made := Suc (attempts_made w)\<rparr>))"
  by (subst attempt_loop.simps, cases "answers w (attempts_made w)")
     (auto simp: within_tolerance_def next_attempt_def)

lemma attempt_loop_last:
  "a < r \<Longrightarrow> \<not> a < r - 1 \<Longrightarrow> \<not> within_tolerance x y (answers w (attempts_made w)) \<Longrightarrow>
   attempt_loop a r x y w = (False, w\<lparr>attempts_made := Suc (attempts_made w)\<rparr>)"
  by (subst attempt_loop.simps, cases "answers w (attempts_made w)")
     (auto simp: within_tolerance_def next_attempt_def attempt_loop_done)

lemma attempt_loop_spec:
  "nat (r - a) = n \<Longrightarrow> attempt_loop a r x y w = (ok, w') \<Longrightarrow>
     (ok \<longrightarrow> (\<exists>k. k < n \<and> within_tolerance x y (answers w (attempts_made w + k)) \<and>
                  (\<forall>j<k. \<not> within_tolerance x y (answers w (attempts_made w + j))) \<and>
                  w' = w\<lparr>attempts_made := attempts_made w + k + 1,
                          trace := trace w @ replicate k (Sleep 0.2)\<rparr>)) \<and>
     (\<not> ok \<longrightarrow> (\<forall>j<n. \<not> within_tolerance x y (answers w (attempts_made w + j))) \<and>
                  w' = w\<lparr>attempts_made := attempts_made w + n,
                          trace := trace w @ replicate (n - 1) (Sleep 0.2)\<rparr>)"
proof (induction n arbitrary: a w)
  case 0
  then have "\<not> a < r" by simp
  with 0 show ?case by (simp add: attempt_loop_done)
next
  case (Suc n)
  then have lt: "a < r" by linarith
  let ?w1 = "w\<lparr>attempts_made := Suc (attempts_made w)\<rparr>"
  show ?case
  proof (cases "within_tolerance x y (answers w (attempts_made w))")
    case True
    with lt Suc.prems have "ok" "w' = ?w1" by (simp_all add: attempt_loop_hit)
    with True show ?thesis by (auto intro!: exI [of _ 0])
  next
    case miss: False
    show ?thesis
    proof (cases "a < r - 1")
      case False
      with lt have n0: "n = 0" using Suc.prems(1) by linarith
      from False lt miss Suc.prems have "\<not> ok" "w' = ?w1" by (simp_all add: attempt_loop_last)
      with n0 miss show ?thesis by simp
    next
      case True
      let ?w2 = "sleep 0.2 ?w1"
      from True have n1: "nat (r - (a + 1)) = n" using Suc.prems(1) by linarith
      from True miss Suc.prems have run: "attempt_loop (a + 1) r x y ?w2 = (ok, w')"
        by (simp add: attempt_loop_retry)
      note IH = Suc.IH [OF n1 run]
      from True n1 have npos: "0 < n" by linarith
      show ?thesis
      proof (cases ok)
        case True
        with IH obtain k where k: "k < n"
          "within_tolerance x y (answers w (attempts_made w + Suc k))"
          "\<forall>j<k. \<not> within_tolerance x y (answers w (attempts_made w + Suc j))"
          "w' = ?w2\<lparr>attempts_made := attempts_made ?w2 + k + 1,
                    trace := trace ?w2 @ replicate k (Sleep 0.2)\<rparr>"
          by (auto simp: sleep_def)
        have all: "\<forall>j<Suc k. \<not> within_tolerance x y (answers w (attempts_made w + j))"
        proof (intro allI impI)
          fix j assume "j < Suc k"
          then show "\<not> within_tolerance x y (answers w (attempts_made w + j))"
            using miss k(3) by (cases j) auto
        qed
        have w': "w' = w\<lparr>attempts_made := attempts_made w + Suc k + 1,
                          trace := trace w @ replicate (Suc k) (Sleep 0.2)\<rparr>"
          using k(4) by (simp add: sleep_def)
        from True k(1,2) all w' show ?thesis
          by (intro conjI impI) (auto intro!: exI [of _ "Suc k"])
      next
        case False
        with IH have f: "\<forall>j<n. \<not> within_tolerance x y (answers w (attempts_made w + Suc j))"
          "w' = ?w2\<lparr>attempts_made := attempts_made ?w2 + n,
                    trace := trace ?w2 @ replicate (n - 1) (Sleep 0.2)\<rparr>"
          by (auto simp: sleep_def)
        have all: "\<forall>j<Suc n. \<not> within_tolerance x y (answers w (attempts_made w + j))"
        proof (intro allI impI)
          fix j assume "j < Suc n"
          then show "\<not> within_tolerance x y (answers w (attempts_made w + j))"
            using miss f(1) by (cases j) auto
        qed
        have "replicate n (Sleep 0.2) = Sleep 0.2 # replicate (n - 1) (Sleep 0.2)"
          using npos by (cases n) simp_all
        then have w': "w' = w\<lparr>attempts_made := attempts_made w + Suc n,
                          trace := trace w @ replicate (Suc n - 1) (Sleep 0.2)\<rparr>"
          using f(2) by (simp add: sleep_def)
        from False all w' show ?thesis by simp
      qed
    qed
  qed
qed

lemma placements_append [simp]: "placements (xs @ ys) = placements xs @ placements ys"
  by (simp add: placements_def)

lemma placements_sleeps [simp]: "placements (replicate k (Sleep d)) = []"
  by (induction k) (simp_all add: placements_def)

lemma position_window_frame:
  assumes "position_window hwnd x y width height retries w = (ok, w')"
  shows "placements (trace w') = placements (trace w) @ [Placement hwnd x y width height]"
    and "same_oracles w w'"
proof -
  let ?w0 = "w\<lparr>trace := trace w @ [Placement hwnd x y width height]\<rparr>"
  from assms have run: "attempt_loop 0 retries x y ?w0 = (ok, w')"
    by (simp add: position_window_def)
  note spec = attempt_loop_spec [OF refl run]
  show "placements (trace w') = placements (trace w) @ [Placement hwnd x y width height]"
    using spec by (cases ok) (auto simp: placements_def)
  show "same_oracles w w'"
    using spec by (cases ok) (auto simp: same_oracles_def)
qed

lemma same_oracles_refl [simp]: "same_oracles w w"
  by (simp add: same_oracles_def)

lemma same_oracles_trans: "same_oracles a b \<Longrightarrow> same_oracles b c \<Longrightarrow> same_oracles a c"
  by (simp add: same_oracles_def)

lemma same_oracles_sleep [simp]: "same_oracles w (sleep d w')  \<longleftrightarrow> same_oracles w w'"
  by (simp add: same_oracles_def sleep_def)

lemma placements_sleep [simp]: "placements (trace (sleep d w)) = placements (trace w)"
  by (simp add: sleep_def placements_def)

lemma py_index_positions:
  "i < 4 \<Longrightarrow> py_index positions (int i) = Inr (positions ! i)"
  by (simp add: py_index_def positions_def)

lemma py_index_window_keys:
  "1 \<le> k \<Longrightarrow> k \<le> 4 \<Longrightarrow> py_index window_keys (k - 1) = Inr (window_keys ! nat (k - 1))"
  by (simp add: py_index_def window_keys_def)

lemma place_slots_spec:
  assumes "slots_ok slots"
  shows "\<exists>n w'. place_slots handles slots c w = (Inr n, w') \<and> c \<le> n \<and>
           n \<le> c + length (filter (\<lambda>k. map_of handles k \<noteq> None) (map snd slots)) \<and>
           placements (trace w') = placements (trace w) @ slot_targets handles slots \<and>
           same_oracles w w'"
  using assms
proof (induction slots arbitrary: c w)
  case Nil
  show ?case by simp
next
  case (Cons slot rest)
  obtain i k where slot: "slot = (i, k)" by (cases slot)
  from Cons.prems slot have ik: "i < 4" "1 \<le> k" "k \<le> 4" and rest: "slots_ok rest"
    by (auto simp: slots_ok_def)
  show ?case
  proof (cases "map_of handles k")
    case None
    with Cons.IH [OF rest, of c w] slot show ?thesis by simp
  next
    case (Some h)
    obtain x y width height where pos: "positions ! i = (x, y, width, height)"
      by (cases "positions ! i")
    obtain ok w1 where pw: "position_window h x y width height 3 w = (ok, w1)"
      by (cases "position_window h x y width height 3 w")
    let ?c = "if ok then c + 1 else c"
    from Cons.IH [OF rest, of ?c "sleep 0.15 w1"]
    obtain n w' where run: "place_slots handles rest ?c (sleep 0.15 w1) = (Inr n, w')"
      and n: "?c \<le> n"
        "n \<le> ?c + length (filter (\<lambda>k. map_of handles k \<noteq> None) (map snd rest))"
      and tr: "placements (trace w') = placements (trace (sleep 0.15 w1)) @ slot_targets handles rest"
      and so: "same_oracles (sleep 0.15 w1) w'"
      by blast
    have step: "place_slots handles (slot # rest) c w = (Inr n, w')"
      using slot Some ik pos pw run
      by (simp add: py_index_positions py_index_window_keys)
    from position_window_frame [OF pw]
    have f: "placements (trace w1) = placements (trace w) @ [Placement h x y width height]"
      "same_oracles w w1" .
    have so': "same_oracles w w'"
      using f(2) so by (simp add: same_oracles_def sleep_def)
    have "placements (trace w') = placements (trace w) @ slot_targets handles (slot # rest)"
      using tr f(1) slot Some pos by simp
    moreover have "c \<le> n" using n(1) by (simp split: if_splits)
    moreover have "n \<le> c + length (filter (\<lambda>k. map_of handles k \<noteq> None) (map snd (slot # rest)))"
      using n(2) slot Some by (simp split: if_splits)
    ultimately show ?thesis using step so' by blast
  qed
qed

lemma validation_iff:
  "length p = 4 \<and> list_all (\<lambda>x. 1 \<le> x \<and> x \<le> 4) p \<and> card (set p) = 4 \<longleftrightarrow> is_permutation p"
  by (auto simp: is_permutation_def list_all_iff distinct_card card_distinct)


lemma slots_ok_enumerate: "is_permutation p \<Longrightarrow> slots_ok (enumerate 0 p)"
  by (auto simp: slots_ok_def is_permutation_def in_set_enumerate_eq)

lemma reorder_windows_rejects:
  "reorder_windows s p w =
     (if length p \<noteq> 4 then
        (Inr \<lparr>success = False, message = ''Order must contain exactly 4 values'', order = None\<rparr>, s, w)
      else if \<not> (\<forall>x \<in> set p. 1 \<le> x \<and> x \<le> 4) then
        (Inr \<lparr>success = False, message = ''All values must be between 1 and 4'', order = None\<rparr>, s, w)
      else
        (Inr \<lparr>success = False, message = ''All values must be unique'', order = None\<rparr>, s, w))"
  if "\<not> is_permutation p"
  using that by (auto simp: reorder_windows_def validation_iff [symmetric] list_all_iff)

lemma reorder_windows_no_handles:
  "is_permutation p \<Longrightarrow> window_handles s = [] \<Longrightarrow>
   reorder_windows s p w =
     (Inr \<lparr>success = False, message = ''No windows found. Start the game first.'', order = None\<rparr>,
      s, w)"
  using validation_iff [of p] by (simp add: reorder_windows_def)

lemma reorder_windows_pass:
  assumes p: "is_permutation p" and h: "window_handles s \<noteq> []"
  shows "\<exists>n w'. place_slots (window_handles s) (enumerate 0 p) 0 w = (Inr n, w') \<and>
           n \<le> length (filter (\<lambda>k. map_of (window_handles s) k \<noteq> None) p) \<and>
           placements (trace w') =
             placements (trace w) @ slot_targets (window_handles s) (enumerate 0 p) \<and>
           same_oracles w w' \<and>
           reorder_windows s p w =
             (Inr (if n = 4 then
                     \<lparr>success = True, message = ''Successfully reordered to '' @ repr_list p,
                      order = Some p\<rparr>
                   else
                     \<lparr>success = False,
                      message = ''Only positioned '' @ str_nat n @ ''/4 windows'',
                      order = Some p\<rparr>),
              s\<lparr>current_order := p\<rparr>, w')"
proof -
  from place_slots_spec [OF slots_ok_enumerate [OF p], of "window_handles s" 0 w]
  obtain n w' where run: "place_slots (window_handles s) (enumerate 0 p) 0 w = (Inr n, w')"
    and n: "n \<le> length (filter (\<lambda>k. map_of (window_handles s) k \<noteq> None) p)"
    and tr: "placements (trace w') =
               placements (trace w) @ slot_targets (window_handles s) (enumerate 0 p)"
    and so: "same_oracles w w'"
    by auto
  have "reorder_windows s p w =
          (Inr (if n = 4 then
                  \<lparr>success = True, message = ''Successfully reordered to '' @ repr_list p,
                   order = Some p\<rparr>
                else
                  \<lparr>success = False,
                   message = ''Only positioned '' @ str_nat n @ ''/4 windows'',
                   order = Some p\<rparr>),
           s\<lparr>current_order := p\<rparr>, w')"
    using validation_iff [of p] p h run by (simp add: reorder_windows_def)
  with run n tr so show ?thesis by blast
qed

lemma handled_slots_le:
  assumes "distinct p"
  shows "length (filter (\<lambda>k. map_of handles k \<noteq> None) p) \<le> length handles"
proof -
  have "length (filter (\<lambda>k. map_of handles k \<noteq> None) p)
          = card (set (filter (\<lambda>k. map_of handles k \<noteq> None) p))"
    using assms by (subst distinct_card) simp_all
  also have "\<dots> \<le> card (fst ` set handles)"
    by (rule card_mono) (auto simp: map_of_eq_None_iff)
  also have "\<dots> \<le> card (set handles)" by (rule card_image_le) simp
  also have "\<dots> \<le> length handles" by (rule card_length)
  finally show ?thesis .
qed





lemma reorder_windows_state:
  "fst (snd (reorder_windows s p w)) = s \<or>
   is_permutation p \<and> fst (snd (reorder_windows s p w)) = s\<lparr>current_order := p\<rparr>"
proof (cases "is_permutation p")
  case False
  then show ?thesis by (simp add: reorder_windows_rejects)
next
  case True
  show ?thesis
  proof (cases "window_handles s = []")
    case True
    with \<open>is_permutation p\<close> show ?thesis by (simp add: reorder_windows_no_handles)
  next
    case False
    from reorder_windows_pass [OF True False, of w] True show ?thesis by auto
  qed
qed







lemma enum_callback_classify:
  "enum_callback win results =
     (if visible win then
        (case classify (title win) of
           Some k \<Rightarrow> AList.update k (handle win) results
         | None \<Rightarrow> results)
      else results)"
  by (simp add: enum_callback_def classify_def)

lemma map_of_enum_callback:
  "map_of (enum_callback win results) k =
     (if visible win \<and> classify (title win) = Some k then Some (handle win)
      else map_of results k)"
  by (auto simp: enum_callback_classify update_conv' split: option.splits)

lemma map_of_enum_windows:
  "map_of (enum_windows wins results) k =
     (case filter (\<lambda>win. visible win \<and> classify (title win) = Some k) wins of
        [] \<Rightarrow> map_of results k
      | m # ms \<Rightarrow> Some (handle (last (m # ms))))"
proof (induction wins arbitrary: results)
  case Nil
  show ?case by simp
next
  case (Cons win wins)
  show ?case
    by (simp add: Cons.IH map_of_enum_callback split: list.splits)
qed


lemma same_future_step:
  "same_future w v \<Longrightarrow>
   same_future (w\<lparr>attempts_made := Suc (attempts_made w)\<rparr>) (v\<lparr>attempts_made := Suc (attempts_made v)\<rparr>)"
  unfolding same_future_def
proof (intro allI)
  fix k
  assume a: "\<forall>k. answers v (attempts_made v + k) = answers w (attempts_made w + k)"
  from a have "answers v (attempts_made v + Suc k) = answers w (attempts_made w + Suc k)" by blast
  then show "answers (v\<lparr>attempts_made := Suc (attempts_made v)\<rparr>)
          (attempts_made (v\<lparr>attempts_made := Suc (attempts_made v)\<rparr>) + k) =
        answers (w\<lparr>attempts_made := Suc (attempts_made w)\<rparr>)
          (attempts_made (w\<lparr>attempts_made := Suc (attempts_made w)\<rparr>) + k)"
    by simp
qed

lemma same_future_sleep [simp]: "same_future (sleep d w) (sleep e v) \<longleftrightarrow> same_future w v"
  by (simp add: same_future_def sleep_def)

lemma same_future_trace [simp]:
  "same_future (w\<lparr>trace := t\<rparr>) (v\<lparr>trace := u\<rparr>) \<longleftrightarrow> same_future w v"
  by (simp add: same_future_def)

lemma same_future_head:
  "same_future w v \<Longrightarrow> answers v (attempts_made v) = answers w (attempts_made w)"
  unfolding same_future_def by (metis add.right_neutral)

lemma attempt_loop_same_future:
  "nat (r - a) = n \<Longrightarrow> same_future w v \<Longrightarrow>
   fst (attempt_loop a r x y w) = fst (attempt_loop a r x y v) \<and>
   same_future (snd (attempt_loop a r x y w)) (snd (attempt_loop a r x y v))"
proof (induction n arbitrary: a w v)
  case 0
  then have "\<not> a < r" by simp
  with 0 show ?case by (simp add: attempt_loop_done)
next
  case (Suc n)
  then have lt: "a < r" by linarith
  note hd = same_future_head [OF Suc.prems(2)]
  note st = same_future_step [OF Suc.prems(2)]
  show ?case
  proof (cases "within_tolerance x y (answers w (attempts_made w))")
    case True
    with lt hd st show ?thesis by (simp add: attempt_loop_hit)
  next
    case miss: False
    show ?thesis
    proof (cases "a < r - 1")
      case False
      with lt miss hd st show ?thesis by (simp add: attempt_loop_last)
    next
      case True
      from True have n1: "nat (r - (a + 1)) = n" using Suc.prems(1) by linarith
      have sf: "same_future (sleep 0.2 (w\<lparr>attempts_made := Suc (attempts_made w)\<rparr>))
                  (sleep 0.2 (v\<lparr>attempts_made := Suc (attempts_made v)\<rparr>))"
        using st by simp
      from Suc.IH [OF n1 sf] True miss hd show ?thesis
        by (simp add: attempt_loop_retry)
    qed
  qed
qed

lemma position_window_same_future:
  "same_future w v \<Longrightarrow>
   fst (position_window h x y width height r w) = fst (position_window h x y width height r v) \<and>
   same_future (snd (position_window h x y width height r w))
     (snd (position_window h x y width height r v))"
  unfolding position_window_def
  by (rule attempt_loop_same_future [OF refl]) simp

lemma place_slots_same_future:
  "same_future w v \<Longrightarrow>
   fst (place_slots handles slots c w) = fst (place_slots handles slots c v) \<and>
   same_future (snd (place_slots handles slots c w)) (snd (place_slots handles slots c v))"
proof (induction slots arbitrary: c w v)
  case Nil
  then show ?case by simp
next
  case (Cons slot rest)
  obtain i k where slot: "slot = (i, k)" by (cases slot)
  show ?case
  proof (cases "map_of handles k")
    case None
    with Cons slot show ?thesis by simp
  next
    case (Some h)
    show ?thesis
    proof (cases "py_index positions (int i)")
      case (Inl e)
      with Cons.prems slot Some show ?thesis by simp
    next
      case (Inr rect)
      obtain x y width height where rect: "rect = (x, y, width, height)" by (cases rect) auto
      show ?thesis
      proof (cases "py_index window_keys (k - 1)")
        case (Inl e)
        with Cons.prems slot Some Inr rect show ?thesis by simp
      next
        case key: (Inr window_key)
        note pw = position_window_same_future [OF Cons.prems, of h x y width height 3]
        from pw have sf: "same_future (sleep 0.15 (snd (position_window h x y width height 3 w)))
            (sleep 0.15 (snd (position_window h x y width height 3 v)))"
          by simp
        from Cons.IH [OF sf] pw slot Some Inr rect key show ?thesis by simp
      qed
    qed
  qed
qed

lemma reorder_windows_same_future:
  assumes "same_future w v" and "window_handles s = window_handles t"
  shows "fst (reorder_windows s p w) = fst (reorder_windows t p v)"
  using place_slots_same_future [OF assms(1), of "window_handles t" "enumerate 0 p" 0] assms(2)
  by (simp add: reorder_windows_def Let_def split: sum.splits)



section \<open>The claims\<close>



text \<open>
  C4. A title is classified as a role exactly when it contains both markers
  \<^verbatim>\<open>Preview\<close> and \<^verbatim>\<open>NetMode:\<close> and a role substring, the first of Server, Client 1,
  Client 2, Client 3 that occurs deciding, so a title gets at most one role. The callback
  writes that one key for a visible window and nothing otherwise; the dictionary that
  \<^verbatim>\<open>find_unreal_windows\<close> returns holds, for each role, the handle of the last visible
  window classified as it, and no entry for a role that no visible window is classified
  as. Classification is a total function: it has no error result.
\<close>

theorem classification_by_title:
  "(classify t = Some ''Server'' \<longleftrightarrow>
      sublist ''Preview'' t \<and> sublist ''NetMode:'' t \<and> sublist ''Server'' t) \<and>
   (classify t = Some ''Client 1'' \<longleftrightarrow>
      sublist ''Preview'' t \<and> sublist ''NetMode:'' t \<and> \<not> sublist ''Server'' t \<and>
      sublist ''Client 1'' t) \<and>
   (classify t = Some ''Client 2'' \<longleftrightarrow>
      sublist ''Preview'' t \<and> sublist ''NetMode:'' t \<and> \<not> sublist ''Server'' t \<and>
      \<not> sublist ''Client 1'' t \<and> sublist ''Client 2'' t) \<and>
   (classify t = Some ''Client 3'' \<longleftrightarrow>
      sublist ''Preview'' t \<and> sublist ''NetMode:'' t \<and> \<not> sublist ''Server'' t \<and>
      \<not> sublist ''Client 1'' t \<and> \<not> sublist ''Client 2'' t \<and> sublist ''Client 3'' t) \<and>
   (classify t = None \<longleftrightarrow>
      \<not> (sublist ''Preview'' t \<and> sublist ''NetMode:'' t \<and>
         (sublist ''Server'' t \<or> sublist ''Client 1'' t \<or> sublist ''Client 2'' t \<or>
          sublist ''Client 3'' t))) \<and>
   (\<forall>k. classify t = Some k \<longrightarrow> k \<in> set window_keys) \<and>
   enum_callback win results =
     (if visible win then
        (case classify (title win) of
           Some k \<Rightarrow> AList.update k (handle win) results
         | None \<Rightarrow> results)
      else results) \<and>
   map_of (fst (find_unreal_windows w)) role =
     (case filter (\<lambda>win. visible win \<and> classify (title win) = Some role) (desktop w (scans w)) of
        [] \<Rightarrow> None
      | m # ms \<Rightarrow> Some (handle (last (m # ms))))"
proof -
  have c1: "classify t = Some ''Server'' \<longleftrightarrow>
      sublist ''Preview'' t \<and> sublist ''NetMode:'' t \<and> sublist ''Server'' t"
    by (auto simp: classify_def)
  have c2: "classify t = Some ''Client 1'' \<longleftrightarrow>
      sublist ''Preview'' t \<and> sublist ''NetMode:'' t \<and> \<not> sublist ''Server'' t \<and>
      sublist ''Client 1'' t"
    by (auto simp: classify_def)
  have c3: "classify t = Some ''Client 2'' \<longleftrightarrow>
      sublist ''Preview'' t \<and> sublist ''NetMode:'' t \<and> \<not> sublist ''Server'' t \<and>
      \<not> sublist ''Client 1'' t \<and> sublist ''Client 2'' t"
    by (auto simp: classify_def)
  have c4: "classify t = Some ''Client 3'' \<longleftrightarrow>
      sublist ''Preview'' t \<and> sublist ''NetMode:'' t \<and> \<not> sublist ''Server'' t \<and>
      \<not> sublist ''Client 1'' t \<and> \<not> sublist ''Client 2'' t \<and> sublist ''Client 3'' t"
    by (auto simp: classify_def)
  have c5: "classify t = None \<longleftrightarrow>
      \<not> (sublist ''Preview'' t \<and> sublist ''NetMode:'' t \<and>
         (sublist ''Server'' t \<or> sublist ''Client 1'' t \<or> sublist ''Client 2'' t \<or>
          sublist ''Client 3'' t))"
    by (auto simp: classify_def)
  have c6: "\<forall>k. classify t = Some k \<longrightarrow> k \<in> set window_keys"
    by (auto simp: classify_def window_keys_def split: if_splits)
  have c7: "enum_callback win results =
     (if visible win then
        (case classify (title win) of
           Some k \<Rightarrow> AList.update k (handle win) results
         | None \<Rightarrow> results)
      else results)"
    by (rule enum_callback_classify)
  have c8: "map_of (fst (find_unreal_windows w)) role =
     (case filter (\<lambda>win. visible win \<and> classify (title win) = Some role) (desktop w (scans w)) of
        [] \<Rightarrow> None
      | m # ms \<Rightarrow> Some (handle (last (m # ms))))"
    by (simp add: find_unreal_windows_def map_of_enum_windows split: list.splits)
  show ?thesis
    by (intro conjI c1 c2 c3 c4 c5 c6 c7 c8)
qed

theorem classification_by_title_witness:
  "classify ''MyGame Preview [NetMode: Client 1]'' = Some ''Client 1'' \<and>
   ''Client 1'' \<in> set window_keys \<and>
   classify ''Server Preview [NetMode: Client 2]'' = Some ''Server'' \<and>
   classify ''MyGame [NetMode: Client 3]'' = None \<and>
   enum_callback (preview_window 102 ''Client 1'') [] = [(''Client 1'', 102)] \<and>
   map_of (fst (find_unreal_windows (example_world four_windows obedient))) ''Client 3'' = Some 104 \<and>
   map_of (fst (find_unreal_windows (example_world (take 2 four_windows) obedient))) ''Client 3'' = None"
proof -
  have c: "classify ''MyGame Preview [NetMode: Server]'' = Some ''Server''"
    "classify ''MyGame Preview [NetMode: Client 1]'' = Some ''Client 1''"
    "classify ''MyGame Preview [NetMode: Client 2]'' = Some ''Client 2''"
    "classify ''MyGame Preview [NetMode: Client 3]'' = Some ''Client 3''"
    "classify ''Server Preview [NetMode: Client 2]'' = Some ''Server''"
    "classify ''MyGame [NetMode: Client 3]'' = None"
    by code_simp+
  let ?all = "example_world four_windows obedient"
  let ?two = "example_world (take 2 four_windows) obedient"
  note t = classification_by_title [of "''MyGame Preview [NetMode: Client 1]''"
      "preview_window 102 ''Client 1''" "[]" _ "''Client 3''"]
  have keys: "\<forall>k. classify ''MyGame Preview [NetMode: Client 1]'' = Some k \<longrightarrow> k \<in> set window_keys"
    using t [of ?all] by (elim conjE)
  with c(2) have key: "''Client 1'' \<in> set window_keys" by blast
  have "enum_callback (preview_window 102 ''Client 1'') [] =
     (if visible (preview_window 102 ''Client 1'') then
        (case classify (title (preview_window 102 ''Client 1'')) of
           Some k \<Rightarrow> AList.update k (handle (preview_window 102 ''Client 1'')) []
         | None \<Rightarrow> [])
      else [])"
    using t [of ?all] by (elim conjE)
  then have cb: "enum_callback (preview_window 102 ''Client 1'') [] = [(''Client 1'', 102)]"
    by (simp add: preview_window_def c)
  have all: "map_of (fst (find_unreal_windows ?all)) ''Client 3'' =
     (case filter (\<lambda>win. visible win \<and> classify (title win) = Some ''Client 3'')
             (desktop ?all (scans ?all)) of
        [] \<Rightarrow> None
      | m # ms \<Rightarrow> Some (handle (last (m # ms))))"
    using t [of ?all] by (elim conjE)
  have two: "map_of (fst (find_unreal_windows ?two)) ''Client 3'' =
     (case filter (\<lambda>win. visible win \<and> classify (title win) = Some ''Client 3'')
             (desktop ?two (scans ?two)) of
        [] \<Rightarrow> None
      | m # ms \<Rightarrow> Some (handle (last (m # ms))))"
    using t [of ?two] by (elim conjE)
  have found: "map_of (fst (find_unreal_windows ?all)) ''Client 3'' = Some 104"
    unfolding all by (simp add: c example_world_def four_windows_def preview_window_def)
  have absent: "map_of (fst (find_unreal_windows ?two)) ''Client 3'' = None"
    unfolding two by (simp add: c example_world_def four_windows_def preview_window_def)
  show ?thesis
    by (intro conjI c(2) key c(5) c(6) cb found absent)
qed

text \<open>
  C5. \<^verbatim>\<open>position_window\<close> returns \<open>True\<close> only on an attempt whose read-back origin is
  within 10 of the requested origin on both axes, and that attempt is the first such one
  and the last one made. An attempt that reads back outside the tolerance (or raises) is
  followed by a 0.2 s sleep and another attempt as long as attempts remain; when none of
  the \<open>retries\<close> attempts is within tolerance the result is \<open>False\<close>, after exactly
  \<open>retries\<close> attempts. The result is a boolean in every case: nothing is raised.
\<close>

theorem position_window_tolerance:
  assumes "position_window hwnd x y width height retries w = (ok, w')"
  shows "(ok \<longrightarrow>
           (\<exists>k. k < nat retries \<and>
                within_tolerance x y (answers w (attempts_made w + k)) \<and>
                (\<forall>j<k. \<not> within_tolerance x y (answers w (attempts_made w + j))) \<and>
                attempts_made w' = attempts_made w + k + 1 \<and>
                trace w' = trace w @ Placement hwnd x y width height # replicate k (Sleep 0.2))) \<and>
         (\<not> ok \<longrightarrow>
           (\<forall>j<nat retries. \<not> within_tolerance x y (answers w (attempts_made w + j))) \<and>
           attempts_made w' = attempts_made w + nat retries \<and>
           trace w' =
             trace w @ Placement hwnd x y width height # replicate (nat retries - 1) (Sleep 0.2))"
proof -
  let ?w0 = "w\<lparr>trace := trace w @ [Placement hwnd x y width height]\<rparr>"
  from assms have run: "attempt_loop 0 retries x y ?w0 = (ok, w')"
    by (simp add: position_window_def)
  have n: "nat (retries - 0) = nat retries" by simp
  from attempt_loop_spec [OF n run] show ?thesis
    by (cases ok) auto
qed

theorem position_window_tolerance_witness:
  "position_window 101 480 0 480 800 3 (example_world four_windows jittery) =
     (True, (example_world four_windows jittery)
        \<lparr>attempts_made := 3, trace := [Placement 101 480 0 480 800, Sleep 0.2, Sleep 0.2]\<rparr>) \<and>
   (\<exists>k. k < nat 3 \<and>
        within_tolerance 480 0
          (answers (example_world four_windows jittery)
             (attempts_made (example_world four_windows jittery) + k)) \<and>
        (\<forall>j<k. \<not> within_tolerance 480 0
           (answers (example_world four_windows jittery)
              (attempts_made (example_world four_windows jittery) + j)))) \<and>
   position_window 104 1440 0 480 800 3 (example_world four_windows (stale_after 0)) =
     (False, (example_world four_windows (stale_after 0))
        \<lparr>attempts_made := 3, trace := [Placement 104 1440 0 480 800, Sleep 0.2, Sleep 0.2]\<rparr>) \<and>
   \<not> within_tolerance 1440 0
       (answers (example_world four_windows (stale_after 0))
          (attempts_made (example_world four_windows (stale_after 0)) + 2))"
proof -
  let ?w = "example_world four_windows jittery"
  let ?v = "example_world four_windows (stale_after 0)"
  have run: "position_window 101 480 0 480 800 3 ?w =
     (True, ?w\<lparr>attempts_made := 3, trace := [Placement 101 480 0 480 800, Sleep 0.2, Sleep 0.2]\<rparr>)"
    by (simp add: position_window_def attempt_loop.simps next_attempt_def sleep_def
        example_world_def jittery_def)
  from position_window_tolerance [OF run] have hit: "\<exists>k. k < nat 3 \<and>
        within_tolerance 480 0 (answers ?w (attempts_made ?w + k)) \<and>
        (\<forall>j<k. \<not> within_tolerance 480 0 (answers ?w (attempts_made ?w + j)))"
    by blast
  have fail: "position_window 104 1440 0 480 800 3 ?v =
     (False, ?v\<lparr>attempts_made := 3, trace := [Placement 104 1440 0 480 800, Sleep 0.2, Sleep 0.2]\<rparr>)"
    by (simp add: position_window_def attempt_loop.simps next_attempt_def sleep_def
        example_world_def stale_after_def)
  from position_window_tolerance [OF fail]
  have "\<forall>j<nat 3. \<not> within_tolerance 1440 0 (answers ?v (attempts_made ?v + j))" by blast
  from this [rule_format, of 2]
  have miss: "\<not> within_tolerance 1440 0 (answers ?v (attempts_made ?v + 2))" by simp
  from run hit fail miss show ?thesis by (intro conjI)
qed






text \<open>
  C9. For every permutation \<open>p\<close> and every manager with a non-empty handle map, the pass of
  \<^verbatim>\<open>reorder_windows\<close> ends normally with a count \<open>n\<close> of placements that succeeded;
  \<open>n\<close> is at most 4 and at most the number of stored handles; the stored order becomes
  \<open>p\<close>; success is reported exactly when \<open>n = 4\<close>, and \<^verbatim>\<open>Only positioned n/4 windows\<close>
  otherwise; \<^verbatim>\<open>position_window\<close> is called for the slots whose window has a handle and
  for no other slot. So with fewer than four stored handles the result is that
  failure, whatever the windowing system does, even when every placement tried succeeds.
\<close>

theorem reorder_partial_handles:
  assumes "is_permutation p" and "window_handles s \<noteq> []"
  shows "\<exists>n w'. place_slots (window_handles s) (enumerate 0 p) 0 w = (Inr n, w') \<and>
           n \<le> 4 \<and> n \<le> length (window_handles s) \<and>
           reorder_windows s p w =
             (Inr (if n = 4 then
                     \<lparr>success = True, message = ''Successfully reordered to '' @ repr_list p,
                      order = Some p\<rparr>
                   else
                     \<lparr>success = False,
                      message = ''Only positioned '' @ str_nat n @ ''/4 windows'',
                      order = Some p\<rparr>),
              s\<lparr>current_order := p\<rparr>, w') \<and>
           placements (trace w') =
             placements (trace w) @ slot_targets (window_handles s) (enumerate 0 p) \<and>
           (length (window_handles s) < 4 \<longrightarrow>
              n < 4 \<and>
              reorder_windows s p w =
                (Inr \<lparr>success = False,
                      message = ''Only positioned '' @ str_nat n @ ''/4 windows'',
                      order = Some p\<rparr>,
                 s\<lparr>current_order := p\<rparr>, w'))"
proof -
  from reorder_windows_pass [OF assms, of w]
  obtain n w' where slots: "place_slots (window_handles s) (enumerate 0 p) 0 w = (Inr n, w')"
    and n: "n \<le> length (filter (\<lambda>k. map_of (window_handles s) k \<noteq> None) p)"
    and tr: "placements (trace w') =
               placements (trace w) @ slot_targets (window_handles s) (enumerate 0 p)"
    and run: "reorder_windows s p w =
             (Inr (if n = 4 then
                     \<lparr>success = True, message = ''Successfully reordered to '' @ repr_list p,
                      order = Some p\<rparr>
                   else
                     \<lparr>success = False,
                      message = ''Only positioned '' @ str_nat n @ ''/4 windows'',
                      order = Some p\<rparr>),
              s\<lparr>current_order := p\<rparr>, w')"
    by blast
  have "length (filter (\<lambda>k. map_of (window_handles s) k \<noteq> None) p) \<le> length p"
    by (rule length_filter_le)
  with n assms(1) have n4: "n \<le> 4" by (simp add: is_permutation_def)
  from assms(1) have "distinct p" by (simp add: is_permutation_def)
  from handled_slots_le [OF this, of "window_handles s"] n
  have nh: "n \<le> length (window_handles s)" by simp
  have "length (window_handles s) < 4 \<longrightarrow>
          n < 4 \<and>
          reorder_windows s p w =
            (Inr \<lparr>success = False,
                  message = ''Only positioned '' @ str_nat n @ ''/4 windows'',
                  order = Some p\<rparr>,
             s\<lparr>current_order := p\<rparr>, w')"
    using nh run by auto
  with slots n4 nh run tr show ?thesis by blast
qed

theorem reorder_partial_handles_witness:
  "is_permutation [1, 2, 3, 4] \<and> window_handles (detected [(1, 101), (2, 102)]) \<noteq> [] \<and>
   length (window_handles (detected [(1, 101), (2, 102)])) < 4 \<and>
   (\<exists>n w'. n < 4 \<and>
      reorder_windows (detected [(1, 101), (2, 102)]) [1, 2, 3, 4]
          (example_world (take 2 four_windows) obedient) =
        (Inr \<lparr>success = False, message = ''Only positioned '' @ str_nat n @ ''/4 windows'',
              order = Some [1, 2, 3, 4]\<rparr>,
         (detected [(1, 101), (2, 102)])\<lparr>current_order := [1, 2, 3, 4]\<rparr>, w'))"
proof -
  have p: "is_permutation [1, 2, 3, 4]" by (simp add: is_permutation_def)
  have h: "window_handles (detected [(1, 101), (2, 102)]) \<noteq> []" by (simp add: detected_def)
  have l: "length (window_handles (detected [(1, 101), (2, 102)])) < 4" by (simp add: detected_def)
  from reorder_partial_handles [OF p h, of "example_world (take 2 four_windows) obedient"] l
  have "\<exists>n w'. n < 4 \<and>
      reorder_windows (detected [(1, 101), (2, 102)]) [1, 2, 3, 4]
          (example_world (take 2 four_windows) obedient) =
        (Inr \<lparr>success = False, message = ''Only positioned '' @ str_nat n @ ''/4 windows'',
              order = Some [1, 2, 3, 4]\<rparr>,
         (detected [(1, 101), (2, 102)])\<lparr>current_order := [1, 2, 3, 4]\<rparr>, w')"
    by blast
  with p h l show ?thesis by blast
qed

text \<open>
  C8. Calling \<^verbatim>\<open>reorder_windows\<close> a second time with the same order, on the manager and
  the world that the first call left, leaves the manager as the first call left it (the
  same order and the same handle map), and issues the same calls of
  \<^verbatim>\<open>position_window\<close>: the same handles with the same slot rectangles, in the same
  sequence. When moreover the windowing system answers the attempts of the second call as
  it answered those of the first, the second call returns what the first returned.
\<close>

theorem reorder_twice:
  assumes first: "reorder_windows s p w = (r1, s1, w1)"
      and second: "reorder_windows s1 p w1 = (r2, s2, w2)"
  shows "s2 = s1 \<and> window_handles s1 = window_handles s \<and>
         (\<exists>targets.
            targets = (if is_permutation p \<and> window_handles s \<noteq> []
                       then slot_targets (window_handles s) (enumerate 0 p) else []) \<and>
            placements (trace w1) = placements (trace w) @ targets \<and>
            placements (trace w2) = placements (trace w1) @ targets) \<and>
         (same_future w w1 \<longrightarrow> r2 = r1)"
proof -
  have fut: "same_future w w1 \<longrightarrow> r2 = r1"
  proof
    assume sf: "same_future w w1"
    have h: "window_handles s = window_handles s1"
      using first reorder_windows_state [of s p w] by auto
    from reorder_windows_same_future [OF sf h, of p] first second show "r2 = r1" by simp
  qed
  show ?thesis
  proof (cases "is_permutation p \<and> window_handles s \<noteq> []")
    case False
    then have "reorder_windows s p w = (fst (reorder_windows s p w), s, w)"
      by (cases "is_permutation p")
         (simp_all add: reorder_windows_rejects reorder_windows_no_handles)
    with first have 1: "s1 = s" "w1 = w" by simp_all
    from False have "reorder_windows s p w1 = (fst (reorder_windows s p w1), s, w1)"
      by (cases "is_permutation p")
         (simp_all add: reorder_windows_rejects reorder_windows_no_handles)
    with second 1 have 2: "s2 = s" "w2 = w" by simp_all
    from 1 2 False fut show ?thesis by auto
  next
    case True
    then have p: "is_permutation p" and h: "window_handles s \<noteq> []" by simp_all
    from reorder_windows_pass [OF p h, of w] first
    have 1: "s1 = s\<lparr>current_order := p\<rparr>"
      "placements (trace w1) = placements (trace w) @ slot_targets (window_handles s) (enumerate 0 p)"
      by auto
    from 1 h have h1: "window_handles s1 \<noteq> []" by simp
    from reorder_windows_pass [OF p h1, of w1] second
    have 2: "s2 = s1\<lparr>current_order := p\<rparr>"
      "placements (trace w2) = placements (trace w1) @ slot_targets (window_handles s1) (enumerate 0 p)"
      by auto
    from 1 2 True fut show ?thesis by simp
  qed
qed

theorem reorder_twice_witness:
  "same_future (example_world four_windows obedient)
     (snd (snd (reorder_windows (detected [(1, 101), (2, 102), (3, 103), (4, 104)]) [2, 1, 3, 4]
        (example_world four_windows obedient)))) \<and>
   fst (reorder_windows
          (fst (snd (reorder_windows (detected [(1, 101), (2, 102), (3, 103), (4, 104)]) [2, 1, 3, 4]
             (example_world four_windows obedient))))
          [2, 1, 3, 4]
          (snd (snd (reorder_windows (detected [(1, 101), (2, 102), (3, 103), (4, 104)]) [2, 1, 3, 4]
             (example_world four_windows obedient))))) =
   fst (reorder_windows (detected [(1, 101), (2, 102), (3, 103), (4, 104)]) [2, 1, 3, 4]
          (example_world four_windows obedient)) \<and>
   fst (snd (reorder_windows
          (fst (snd (reorder_windows (detected [(1, 101), (2, 102), (3, 103), (4, 104)]) [2, 1, 3, 4]
             (example_world four_windows obedient))))
          [2, 1, 3, 4]
          (snd (snd (reorder_windows (detected [(1, 101), (2, 102), (3, 103), (4, 104)]) [2, 1, 3, 4]
             (example_world four_windows obedient)))))) =
   fst (snd (reorder_windows (detected [(1, 101), (2, 102), (3, 103), (4, 104)]) [2, 1, 3, 4]
          (example_world four_windows obedient)))"
proof -
  let ?s = "detected [(1, 101), (2, 102), (3, 103), (4, 104)]"
  let ?w = "example_world four_windows obedient"
  let ?out1 = "reorder_windows ?s [2, 1, 3, 4] ?w"
  let ?out2 = "reorder_windows (fst (snd ?out1)) [2, 1, 3, 4] (snd (snd ?out1))"
  have run: "?out1 =
      (Inr \<lparr>success = True, message = ''Successfully reordered to [2, 1, 3, 4]'',
            order = Some [2, 1, 3, 4]\<rparr>,
       ?s\<lparr>current_order := [2, 1, 3, 4]\<rparr>,
       ?w\<lparr>attempts_made := 4,
          trace := [Placement 102 0 0 480 800, Sleep 0.15, Placement 101 480 0 480 800,
                    Sleep 0.15, Placement 103 960 0 480 800, Sleep 0.15,
                    Placement 104 1440 0 480 800, Sleep 0.15]\<rparr>)"
    by (simp add: reorder_windows_def detected_def init_def example_world_def obedient_def
        position_window_def attempt_loop.simps next_attempt_def sleep_def py_index_def
        positions_def window_keys_def enumerate_eq_zip upt_rec Let_def digit_char_def
        repr_list_def str_int_def)
  have sf: "same_future ?w (snd (snd ?out1))"
    unfolding run by (simp add: same_future_def example_world_def obedient_def)
  have a: "?out1 = (fst ?out1, fst (snd ?out1), snd (snd ?out1))" by simp
  have b: "?out2 = (fst ?out2, fst (snd ?out2), snd (snd ?out2))" by simp
  from reorder_twice [OF a b] sf show ?thesis by blast
qed






end
